theory Spec2Isabelle
  imports Main "HOL-Library.AList" "HOL-Library.Char_ord" "HOL-Library.List_Lexorder"
begin

section \<open>The log service of MPFB (\<^verbatim>\<open>src/mpfb/services/logservice.py\<close>)\<close>

text \<open>
  The module keeps one registry object (\<^verbatim>\<open>_LOGSERVICE\<close>) that owns a dictionary from
  channel names to \<^verbatim>\<open>Logger\<close> objects, a default level and a dictionary of level
  overrides that is written to a JSON file. Loggers are mutable objects that callers hold
  references to, so they live in an explicit store: an address is an index into
  \<open>heap\<close>, and the registry's dictionary maps a name to an address.

  Scope of the model. Levels are Python integers (\<open>int\<close>). Values handed to
  \<^verbatim>\<open>str\<close> and \<^verbatim>\<open>pprint.pformat\<close> are strings, integers, booleans and
  \<^verbatim>\<open>None\<close>. File input and output always succeed; a file is its path (a string)
  and its content. The configuration file is held as the dictionary that
  \<^verbatim>\<open>json.load\<close> returns for it (a JSON object from strings to integers), so
  \<^verbatim>\<open>json.dump\<close> followed by \<^verbatim>\<open>json.load\<close> hands the dictionary back.
  The module constants \<^verbatim>\<open>_LOGDIR\<close>, \<^verbatim>\<open>_CONFIG\<close> and \<^verbatim>\<open>_START\<close> are
  computed from the host application when the module is imported; they are parameters,
  carried in the state and never changed. The caller introspection of \<^verbatim>\<open>enter\<close>
  and the clock of \<^verbatim>\<open>time\<close> are not modelled. The functions and classes are
  modelled as they are once the module is loaded; the loading itself, which starts with an
  import from the package \<^verbatim>\<open>mpfb\<close>, is modelled at the end of the definitions.
\<close>

subsection \<open>Python values and library functions\<close>

datatype pyval = PyNone | PyBool bool | PyInt int | PyStr string

datatype error = RuntimeError string | IndexError | ImportError string

definition digit_char :: "nat \<Rightarrow> char" where
  "digit_char d = ''0123456789'' ! d"

fun str_nat :: "nat \<Rightarrow> string" where
  "str_nat n = (if n < 10 then [digit_char n] else str_nat (n div 10) @ [digit_char (n mod 10)])"

declare str_nat.simps [simp del]

definition str_int :: "int \<Rightarrow> string" where
  "str_int i = (if i < 0 then CHR ''-'' # str_nat (nat (- i)) else str_nat (nat i))"

text \<open>\<^verbatim>\<open>str(x)\<close> on the values of the model.\<close>

fun py_str :: "pyval \<Rightarrow> string" where
  "py_str PyNone = ''None''"
| "py_str (PyBool b) = (if b then ''True'' else ''False'')"
| "py_str (PyInt i) = str_int i"
| "py_str (PyStr s) = s"

text \<open>
  \<^verbatim>\<open>pprint.pformat(x, 4, 180, depth=5)\<close>: on an integer, a boolean or \<^verbatim>\<open>None\<close> it is
  the \<^verbatim>\<open>repr\<close>, which is the \<^verbatim>\<open>str\<close>. (\<^verbatim>\<open>dump\<close> never passes it a string.)
\<close>

definition pformat :: "pyval \<Rightarrow> string" where
  "pformat v = py_str v"

text \<open>\<^verbatim>\<open>s.ljust(n, c)\<close>: pad on the right up to width \<open>n\<close>; a longer string is kept.\<close>

definition ljust :: "string \<Rightarrow> nat \<Rightarrow> char \<Rightarrow> string" where
  "ljust s n c = s @ replicate (n - length s) c"

text \<open>\<^verbatim>\<open>os.path.join(a, b)\<close> of \<^verbatim>\<open>posixpath\<close>, two components.\<close>

definition path_join :: "string \<Rightarrow> string \<Rightarrow> string" where
  "path_join a b =
     (if b \<noteq> [] \<and> hd b = CHR ''/'' then b
      else if a = [] \<or> last a = CHR ''/'' then a @ b
      else a @ ''/'' @ b)"

text \<open>
  Subscripting a Python list with an integer: positions \<open>0 .. len - 1\<close> from the
  front, \<open>-1 .. -len\<close> from the back, \<^verbatim>\<open>IndexError\<close> for anything else.
\<close>

definition py_index :: "'a list \<Rightarrow> int \<Rightarrow> error + 'a" where
  "py_index xs i =
     (if 0 \<le> i \<and> i < int (length xs) then Inr (xs ! nat i)
      else if i < 0 \<and> - int (length xs) \<le> i then Inr (xs ! nat (int (length xs) + i))
      else Inl IndexError)"

text \<open>\<^verbatim>\<open>name.split(".", 1)\<close> when \<^verbatim>\<open>"." in name\<close>: the parts around the first dot.\<close>

definition split_dot1 :: "string \<Rightarrow> string \<times> string" where
  "split_dot1 s = (takeWhile (\<lambda>c. c \<noteq> CHR ''.'') s, tl (dropWhile (\<lambda>c. c \<noteq> CHR ''.'') s))"

subsection \<open>Levels\<close>

definition LOGLEVELS :: "string list" where
  "LOGLEVELS = [''CRASH'', ''ERROR'', ''WARN '', ''INFO '', ''DEBUG'', ''TRACE'', ''DUMP '']"

definition CRASH :: int where "CRASH = 0"
definition ERROR :: int where "ERROR = 1"
definition WARN :: int where "WARN = 2"
definition INFO :: int where "INFO = 3"
definition DEBUG :: int where "DEBUG = 4"
definition TRACE :: int where "TRACE = 5"
definition DUMP :: int where "DUMP = 6"

definition JUSTIFICATION :: nat where
  "JUSTIFICATION = 40"

subsection \<open>State\<close>

record logger =
  name :: string
  level :: int
  level_is_overridden :: bool
  path :: string
  time_stamp :: int

record state =
  LOGDIR :: string
  CONFIG :: string
  START :: int
  heap :: "logger list"
  loggers :: "(string \<times> nat) list"
  default_log_level :: int
  level_overrides :: "(string \<times> int) list"
  files :: "string \<rightharpoonup> string"
  config_file :: "(string \<times> int) list option"
  stdout :: "string list"

text \<open>
  \<open>loggers\<close>, \<open>default_log_level\<close> and \<open>level_overrides\<close> are the three attributes
  of \<^verbatim>\<open>_LOGSERVICE\<close>. Both dictionaries are association lists in insertion order, read
  with \<open>map_of\<close>; \<open>AList.update\<close> stores under a key as a Python \<^verbatim>\<open>dict\<close> does (in
  place when the key is there, at the end otherwise). \<open>files\<close> holds the log files,
  \<open>config_file\<close> the file at \<^verbatim>\<open>_CONFIG\<close> (\<open>None\<close> when it does not exist) and
  \<open>stdout\<close> the lines printed. Strings are lists of bytes, ordered
  lexicographically by byte value, which is the order of Python's \<^verbatim>\<open>sort\<close> on
  ASCII names.
\<close>

definition COMBINED :: "state \<Rightarrow> string" where
  "COMBINED st = path_join (LOGDIR st) ''combined.txt''"

text \<open>\<^verbatim>\<open>open(p, "w").write("")\<close> and \<^verbatim>\<open>open(p, "a").write(s)\<close>.\<close>

definition truncate_file :: "string \<Rightarrow> state \<Rightarrow> state" where
  "truncate_file p st = st\<lparr>files := (files st)(p \<mapsto> [])\<rparr>"

definition file_content :: "state \<Rightarrow> string \<Rightarrow> string" where
  "file_content st p = (case files st p of None \<Rightarrow> [] | Some c \<Rightarrow> c)"

definition append_file :: "string \<Rightarrow> string \<Rightarrow> state \<Rightarrow> state" where
  "append_file p s st = st\<lparr>files := (files st)(p \<mapsto> file_content st p @ s)\<rparr>"

definition print :: "string \<Rightarrow> state \<Rightarrow> state" where
  "print s st = st\<lparr>stdout := stdout st @ [s]\<rparr>"

subsection \<open>class Logger\<close>

text \<open>\<^verbatim>\<open>Logger.__init__\<close>: the new object gets the next free address.\<close>

definition log_path :: "state \<Rightarrow> string \<Rightarrow> string" where
  "log_path st nm = path_join (LOGDIR st) (''separated.'' @ nm @ ''.txt'')"

definition Logger_init :: "string \<Rightarrow> int \<Rightarrow> state \<Rightarrow> nat \<times> state" where
  "Logger_init nm lvl st =
     (let p = log_path st nm;
          lg = \<lparr>name = nm, level = lvl, level_is_overridden = False, path = p,
                time_stamp = START st\<rparr>
      in (length (heap st), truncate_file p (st\<lparr>heap := heap st @ [lg]\<rparr>)))"

text \<open>\<^verbatim>\<open>Logger._log_message\<close>. The label is looked up before anything is printed or written.\<close>

definition log_message :: "nat \<Rightarrow> int \<Rightarrow> string \<Rightarrow> pyval \<Rightarrow> state \<Rightarrow> error + state" where
  "log_message self lvl message extra_object st =
     (let lg = heap st ! self in
      if lvl \<le> level lg then
        (let extra = (if extra_object \<noteq> PyNone then '' '' @ py_str extra_object else '''');
             location = ljust (name lg @ '' '') JUSTIFICATION CHR ''.'' @ '': ''
         in case py_index LOGLEVELS lvl of
              Inl e \<Rightarrow> Inl e
            | Inr label \<Rightarrow>
                (let long_message = ''['' @ label @ ''] '' @ location @ message @ extra;
                     short_message = ''['' @ label @ ''] '' @ message @ extra
                 in Inr (append_file (COMBINED st) (long_message @ [CHR 0x0A])
                          (append_file (path lg) (short_message @ [CHR 0x0A])
                            (print long_message st)))))
      else Inr st)"

definition set_level :: "nat \<Rightarrow> int \<Rightarrow> state \<Rightarrow> state" where
  "set_level self lvl st =
     st\<lparr>heap := (heap st)[self := (heap st ! self)\<lparr>level := lvl, level_is_overridden := True\<rparr>]\<rparr>"

definition get_level :: "nat \<Rightarrow> state \<Rightarrow> int" where
  "get_level self st = level (heap st ! self)"

definition crash :: "nat \<Rightarrow> string \<Rightarrow> pyval \<Rightarrow> state \<Rightarrow> error + state" where
  "crash self message extra_object st = log_message self CRASH message extra_object st"

definition error :: "nat \<Rightarrow> string \<Rightarrow> pyval \<Rightarrow> state \<Rightarrow> error + state" where
  "error self message extra_object st = log_message self ERROR message extra_object st"

definition warn :: "nat \<Rightarrow> string \<Rightarrow> pyval \<Rightarrow> state \<Rightarrow> error + state" where
  "warn self message extra_object st = log_message self WARN message extra_object st"

definition info :: "nat \<Rightarrow> string \<Rightarrow> pyval \<Rightarrow> state \<Rightarrow> error + state" where
  "info self message extra_object st = log_message self INFO message extra_object st"

definition debug :: "nat \<Rightarrow> string \<Rightarrow> pyval \<Rightarrow> state \<Rightarrow> error + state" where
  "debug self message extra_object st = log_message self DEBUG message extra_object st"

definition trace :: "nat \<Rightarrow> string \<Rightarrow> pyval \<Rightarrow> state \<Rightarrow> error + state" where
  "trace self message extra_object st = log_message self TRACE message extra_object st"

text \<open>\<^verbatim>\<open>Logger.dump\<close>: \<^verbatim>\<open>isinstance(extra_object, str)\<close> is the case \<open>PyStr\<close>.\<close>

definition dump :: "nat \<Rightarrow> string \<Rightarrow> pyval \<Rightarrow> state \<Rightarrow> error + state" where
  "dump self message extra_object st =
     (if level (heap st ! self) > TRACE then
        (let serialized_object =
               (case extra_object of
                  PyStr s \<Rightarrow> [CHR 0x0A] @ s
                | _ \<Rightarrow> [CHR 0x0A] @ pformat extra_object)
         in log_message self DUMP message (PyStr serialized_object) st)
      else Inr st)"

subsection \<open>class \_LogService (the registry)\<close>

definition rewrite_json :: "state \<Rightarrow> state" where
  "rewrite_json st =
     (print (''Will rewrite log config '' @ CONFIG st) st)\<lparr>config_file := Some (level_overrides st)\<rparr>"

text \<open>
  \<^verbatim>\<open>_LogService.__init__\<close>, run in the state the process finds: the three attributes
  are set up, the configuration file is loaded if it exists and written otherwise, and the
  combined file is emptied.
\<close>

definition internal_LogService_init :: "state \<Rightarrow> state" where
  "internal_LogService_init st =
     (let st1 = st\<lparr>loggers := [], default_log_level := INFO,
                   level_overrides := [(''default'', INFO)]\<rparr>;
          st2 = (case config_file st1 of
                   Some js \<Rightarrow>
                     (let st' = st1\<lparr>level_overrides := js\<rparr>
                      in case map_of js ''default'' of
                           Some d \<Rightarrow> st'\<lparr>default_log_level := d\<rparr>
                         | None \<Rightarrow> st')
                 | None \<Rightarrow>
                     rewrite_json (print ''Log config does not exist. Creating empty template.'' st1))
      in truncate_file (COMBINED st2) st2)"

definition get_default_log_level :: "state \<Rightarrow> int" where
  "get_default_log_level st = default_log_level st"

definition reset_log_levels :: "state \<Rightarrow> state" where
  "reset_log_levels st =
     (let st1 = st\<lparr>default_log_level := INFO, level_overrides := [(''default'', INFO)]\<rparr>;
          st2 = rewrite_json st1
      in st2\<lparr>heap := fold (\<lambda>a h. h[a := (h ! a)\<lparr>level := INFO, level_is_overridden := False\<rparr>])
                         (map snd (loggers st2)) (heap st2)\<rparr>)"

definition get_or_create_log_channel :: "string \<Rightarrow> state \<Rightarrow> nat \<times> state" where
  "get_or_create_log_channel nm st =
     (case map_of (loggers st) nm of
        None \<Rightarrow>
          (let (a, st1) = Logger_init nm (default_log_level st) st;
               st2 = st1\<lparr>loggers := loggers st1 @ [(nm, a)]\<rparr>
           in case map_of (level_overrides st2) nm of
                Some l \<Rightarrow> (a, set_level a l st2)
              | None \<Rightarrow> (a, st2))
      | Some a \<Rightarrow> (a, st))"

definition set_default_log_level :: "int \<Rightarrow> state \<Rightarrow> state" where
  "set_default_log_level lvl st =
     (let st1 = st\<lparr>default_log_level := lvl,
                   level_overrides := AList.update ''default'' lvl (level_overrides st)\<rparr>;
          st2 = st1\<lparr>heap := fold (\<lambda>a h. if \<not> level_is_overridden (h ! a)
                                        then h[a := (h ! a)\<lparr>level := lvl\<rparr>] else h)
                                (map snd (loggers st1)) (heap st1)\<rparr>
      in rewrite_json st2)"

definition set_level_override :: "string \<Rightarrow> int \<Rightarrow> state \<Rightarrow> state" where
  "set_level_override logger_name lvl st =
     (let (a, st1) = get_or_create_log_channel logger_name st;
          st2 = st1\<lparr>level_overrides := AList.update logger_name lvl (level_overrides st1)\<rparr>
      in rewrite_json (set_level a lvl st2))"

definition category_of :: "string \<Rightarrow> string" where
  "category_of nm = (if CHR ''.'' \<notin> set nm then nm else fst (split_dot1 nm))"

text \<open>
  The loop of \<^verbatim>\<open>get_loggers_categories_as_property_enum\<close> over the sorted names, with its
  three variables \<^verbatim>\<open>categories\<close>, \<^verbatim>\<open>current\<close> and \<^verbatim>\<open>category_names\<close>.
\<close>

type_synonym enum_item = "string \<times> string \<times> string \<times> int"

fun categories_loop ::
    "string list \<Rightarrow> enum_item list \<times> int \<times> string list \<Rightarrow> enum_item list \<times> int \<times> string list" where
  "categories_loop [] acc = acc"
| "categories_loop (nm # logger_names) (categories, current, category_names) =
     (let cat = category_of nm
      in if cat \<notin> set category_names
         then categories_loop logger_names
                (categories @ [(cat, cat, cat, current)], current + 1, category_names @ [cat])
         else categories_loop logger_names (categories, current, category_names))"

definition get_loggers_categories_as_property_enum :: "state \<Rightarrow> enum_item list" where
  "get_loggers_categories_as_property_enum st =
     (let categories = [(''ALL'', ''(no filter)'', ''Do not filter: show all loggers'', 0)];
          logger_names = sort (map fst (loggers st))
      in fst (categories_loop logger_names (categories, 1, [])))"

subsection \<open>class LogService (the public, static entry points)\<close>

datatype py_class = LogService | Internal_LogService

text \<open>
  Calling a class runs its \<^verbatim>\<open>__init__\<close>: \<^verbatim>\<open>LogService.__init__\<close> raises,
  \<^verbatim>\<open>_LogService.__init__\<close> has no raise statement. The state holds the attributes of
  the registry constructed last.
\<close>

fun construct :: "py_class \<Rightarrow> state \<Rightarrow> error + state" where
  "construct LogService st =
     Inl (RuntimeError ''You should not instance LogService. Use its static methods instead.'')"
| "construct Internal_LogService st = Inr (internal_LogService_init st)"

definition get_logger :: "pyval \<Rightarrow> state \<Rightarrow> nat \<times> state" where
  "get_logger nm st = get_or_create_log_channel (py_str nm) st"

subsection \<open>Loading the module\<close>

text \<open>
  The module body of \<^verbatim>\<open>logservice.py\<close> begins with
  \<^verbatim>\<open>from .. import get_preference, DEBUG\<close>, where \<^verbatim>\<open>..\<close> is the package \<^verbatim>\<open>mpfb\<close>.
  A package is the names its \<^verbatim>\<open>__init__.py\<close> binds at module level, each with its
  value when that is a string, an integer, a boolean or \<^verbatim>\<open>None\<close> (\<open>Opaque\<close> stands
  for a function, a module, a tuple or a dictionary), and the names of its submodules.
  \<^verbatim>\<open>from p import n\<close> takes the attribute \<open>n\<close> of \<open>p\<close>, then the submodule \<open>n\<close>,
  and raises \<^verbatim>\<open>ImportError\<close> when there is neither.
\<close>

datatype attr = Scalar pyval | Opaque

record package =
  attrs :: "(string \<times> attr) list"
  submodules :: "string list"

definition from_import :: "package \<Rightarrow> string \<Rightarrow> error + attr" where
  "from_import p n =
     (case map_of (attrs p) n of
        Some v \<Rightarrow> Inr v
      | None \<Rightarrow> if n \<in> set (submodules p) then Inr Opaque else Inl (ImportError n))"

text \<open>
  The package as \<^verbatim>\<open>src/mpfb/__init__.py\<close> leaves it when \<^verbatim>\<open>register\<close> imports the
  services: the names it assigns, imports and defines, in the order of the file, and the
  submodules that \<^verbatim>\<open>register\<close> imports from. It binds \<^verbatim>\<open>_DEBUG\<close> (line 39, read
  by \<^verbatim>\<open>get_preference\<close>); it binds no \<^verbatim>\<open>DEBUG\<close>.
\<close>

definition mpfb_package :: package where
  "mpfb_package =
     \<lparr>attrs =
        [(''fake_bl_info'', Opaque), (''VERSION'', Opaque),
         (''BUILD_INFO'', Scalar (PyStr ''FROM_SOURCE'')), (''_LOG'', Scalar PyNone),
         (''bpy'', Opaque), (''os'', Opaque), (''sys'', Opaque), (''traceback'', Opaque),
         (''register_class'', Opaque), (''_OLD_EXCEPTHOOK'', Scalar PyNone),
         (''_DEBUG'', Scalar (PyBool False)), (''log_crash'', Opaque),
         (''get_preference'', Opaque), (''ClassManager'', Scalar PyNone),
         (''MPFB_CONTEXTUAL_INFORMATION'', Scalar PyNone), (''register'', Opaque),
         (''unregister'', Opaque), (''__all__'', Opaque)],
      submodules = [''_preferences'', ''services'', ''_classmanager'', ''ui'']\<rparr>"

text \<open>The truth value that \<^verbatim>\<open>if x:\<close> tests.\<close>

fun truthy :: "attr \<Rightarrow> bool" where
  "truthy Opaque = True"
| "truthy (Scalar PyNone) = False"
| "truthy (Scalar (PyBool b)) = b"
| "truthy (Scalar (PyInt i)) = (i \<noteq> 0)"
| "truthy (Scalar (PyStr s)) = (s \<noteq> [])"

text \<open>
  The module body: the import of line 4; lines 9 to 25, whose results are the parameters
  \<open>LOGDIR\<close> and \<open>CONFIG\<close> of the state and which print one line when the host's
  preference cannot be read (\<open>pref_ok\<close> says whether it can); the line printed under
  \<^verbatim>\<open>if DEBUG\<close>; the class definitions; and, at line 370, the construction of
  \<^verbatim>\<open>_LOGSERVICE\<close>. An exception ends the body where it is raised.
\<close>

definition logservice_module :: "package \<Rightarrow> bool \<Rightarrow> state \<Rightarrow> error + state" where
  "logservice_module p pref_ok st =
     (case from_import p ''get_preference'' of
        Inl e \<Rightarrow> Inl e
      | Inr _ \<Rightarrow>
          (case from_import p ''DEBUG'' of
             Inl e \<Rightarrow> Inl e
           | Inr dbg \<Rightarrow>
               (let st1 = (if pref_ok then st
                           else print ''Could not read preference mpfb_user_data'' st);
                    st2 = (if truthy dbg
                           then print ([CHR 0x0A] @
                                  ''Initializing MPFB log service. Logs can be found in '' @
                                  LOGDIR st1 @ [CHR 0x0A]) st1
                           else st1)
                in construct Internal_LogService st2)))"

subsection \<open>Well-formed states\<close>

text \<open>
  A logger object is well formed when it is allocated and its path is the one its
  constructor computed from its name. A state is well formed when the registry's
  dictionary has one entry per name, no two names share an object, and every entry
  refers to a well-formed logger of that name. Python guarantees the allocation part by
  construction; the rest holds as long as callers leave \<^verbatim>\<open>name\<close> and \<^verbatim>\<open>path\<close> alone.
\<close>

definition logger_ok :: "state \<Rightarrow> nat \<Rightarrow> bool" where
  "logger_ok st a \<longleftrightarrow>
     a < length (heap st) \<and> path (heap st ! a) = log_path st (name (heap st ! a))"

definition wf_state :: "state \<Rightarrow> bool" where
  "wf_state st \<longleftrightarrow>
     distinct (map fst (loggers st)) \<and> distinct (map snd (loggers st)) \<and>
     (\<forall>(n, a) \<in> set (loggers st). logger_ok st a \<and> name (heap st ! a) = n)"


subsection \<open>Sequences of registry calls\<close>

datatype op = GetOrCreate string | SetDefault int | SetOverride string int | ResetAll

fun step :: "op \<Rightarrow> state \<Rightarrow> state" where
  "step (GetOrCreate n) st = snd (get_or_create_log_channel n st)"
| "step (SetDefault l) st = set_default_log_level l st"
| "step (SetOverride n l) st = set_level_override n l st"
| "step ResetAll st = reset_log_levels st"

definition run :: "op list \<Rightarrow> state \<Rightarrow> state" where
  "run ops st = fold step ops st"

subsection \<open>Observations used in the statements\<close>

text \<open>The threshold and the overridden flag of the channel registered under a name.\<close>

definition channel :: "state \<Rightarrow> string \<Rightarrow> (int \<times> bool) option" where
  "channel st n =
     map_option (\<lambda>a. (level (heap st ! a), level_is_overridden (heap st ! a)))
       (map_of (loggers st) n)"

text \<open>The logger that \<^verbatim>\<open>get_or_create_log_channel\<close> leaves in the store for a new name.\<close>

definition new_logger :: "state \<Rightarrow> string \<Rightarrow> logger" where
  "new_logger st n =
     \<lparr>name = n,
      level = (case map_of (level_overrides st) n of Some l \<Rightarrow> l | None \<Rightarrow> default_log_level st),
      level_is_overridden = (map_of (level_overrides st) n \<noteq> None),
      path = log_path st n, time_stamp = START st\<rparr>"

text \<open>
  The two lines of an accepted message: \<^verbatim>\<open>[LABEL] name ....: message extra\<close> and
  \<^verbatim>\<open>[LABEL] message extra\<close>, and what it means that the message was recorded: each
  file holds what it held, followed by its line.
\<close>

definition extra_text :: "pyval \<Rightarrow> string" where
  "extra_text extra_object = (if extra_object = PyNone then [] else '' '' @ py_str extra_object)"

definition long_line :: "string \<Rightarrow> int \<Rightarrow> string \<Rightarrow> pyval \<Rightarrow> string" where
  "long_line nm s message extra_object =
     ''['' @ LOGLEVELS ! nat s @ ''] '' @ ljust (nm @ '' '') 40 CHR ''.'' @ '': '' @ message @
     extra_text extra_object"

definition short_line :: "int \<Rightarrow> string \<Rightarrow> pyval \<Rightarrow> string" where
  "short_line s message extra_object =
     ''['' @ LOGLEVELS ! nat s @ ''] '' @ message @ extra_text extra_object"

definition recorded :: "nat \<Rightarrow> int \<Rightarrow> string \<Rightarrow> pyval \<Rightarrow> state \<Rightarrow> state \<Rightarrow> bool" where
  "recorded a s message extra_object st st' \<longleftrightarrow>
     files st' (path (heap st ! a)) =
       Some (file_content st (path (heap st ! a)) @ short_line s message extra_object @ [CHR 0x0A]) \<and>
     files st' (COMBINED st) =
       Some (file_content st (COMBINED st) @
             long_line (name (heap st ! a)) s message extra_object @ [CHR 0x0A])"

text \<open>The text that \<^verbatim>\<open>dump\<close> hands on as the extra object.\<close>

definition dump_text :: "pyval \<Rightarrow> string" where
  "dump_text v = CHR 0x0A # (case v of PyStr s \<Rightarrow> s | _ \<Rightarrow> pformat v)"

text \<open>
  The invariant of the overrides table: a channel that exists under a name of the table,
  other than \<^verbatim>\<open>"default"\<close>, has its overridden flag set.
\<close>

definition overrides_inv :: "state \<Rightarrow> bool" where
  "overrides_inv st \<longleftrightarrow>
     (\<forall>n \<in> fst ` set (level_overrides st).
        n \<noteq> ''default'' \<longrightarrow> (case channel st n of None \<Rightarrow> True | Some (lv, ov) \<Rightarrow> ov))"

text \<open>
  What the persisted table determines: the file holds the table, the default level is the
  table's \<^verbatim>\<open>"default"\<close> entry (\<open>INFO\<close> without one), and a channel not named
  \<^verbatim>\<open>"default"\<close> is overridden exactly when the table has its name and then has the
  table's level, the default level otherwise.
\<close>

definition level_for :: "state \<Rightarrow> string \<Rightarrow> int" where
  "level_for st n =
     (case map_of (level_overrides st) n of Some l \<Rightarrow> l | None \<Rightarrow> default_log_level st)"

definition persisted_inv :: "state \<Rightarrow> bool" where
  "persisted_inv st \<longleftrightarrow>
     config_file st = Some (level_overrides st) \<and>
     default_log_level st =
       (case map_of (level_overrides st) ''default'' of Some d \<Rightarrow> d | None \<Rightarrow> INFO) \<and>
     (\<forall>n \<in> fst ` set (loggers st).
        n \<noteq> ''default'' \<longrightarrow>
        (case channel st n of
           None \<Rightarrow> True
         | Some (lv, ov) \<Rightarrow> (ov \<longleftrightarrow> map_of (level_overrides st) n \<noteq> None) \<and> lv = level_for st n))"

text \<open>Categories in the words of the description: first occurrences, in order.\<close>

definition first_occurrences :: "'a list \<Rightarrow> 'a list" where
  "first_occurrences xs = rev (remdups (rev xs))"

subsection \<open>Example states\<close>

definition world0 :: state where
  "world0 = \<lparr>LOGDIR = ''/logs'', CONFIG = ''/config/log_levels.json'', START = 0, heap = [],
             loggers = [], default_log_level = 0, level_overrides = [], files = Map.empty,
             config_file = None, stdout = []\<rparr>"

definition state_z :: state where
  "state_z = snd (get_or_create_log_channel ''z'' (internal_LogService_init world0))"

definition state_z6 :: state where
  "state_z6 = set_level 0 6 state_z"

definition state_net :: state where
  "state_net = set_level_override ''net'' 5 state_z"

definition state_abc :: state where
  "state_abc = run [GetOrCreate ''z'', GetOrCreate ''a.c'', GetOrCreate ''a.b'']
                 (internal_LogService_init world0)"

section \<open>Library facts\<close>

lemma path_join_rel:
  "b \<noteq> [] \<Longrightarrow> hd b \<noteq> CHR ''/'' \<Longrightarrow>
   path_join a b = (if a = [] \<or> last a = CHR ''/'' then a @ b else a @ ''/'' @ b)"
  by (simp add: path_join_def)

lemma path_join_inj:
  "b \<noteq> [] \<Longrightarrow> hd b \<noteq> CHR ''/'' \<Longrightarrow> b' \<noteq> [] \<Longrightarrow> hd b' \<noteq> CHR ''/'' \<Longrightarrow>
   path_join a b = path_join a b' \<longleftrightarrow> b = b'"
  by (simp add: path_join_rel)

lemma log_path_inj: "log_path st n = log_path st m \<longleftrightarrow> n = m"
  unfolding log_path_def by (subst path_join_inj) simp_all

lemma log_path_not_combined: "log_path st n \<noteq> COMBINED st"
  unfolding log_path_def COMBINED_def by (subst path_join_inj) simp_all

lemma py_index_LOGLEVELS:
  "0 \<le> s \<Longrightarrow> s \<le> 6 \<Longrightarrow> py_index LOGLEVELS s = Inr (LOGLEVELS ! nat s)"
  by (simp add: py_index_def LOGLEVELS_def)

section \<open>Effects of the registry operations\<close>

lemma fold_length_upd:
  assumes "\<And>a h. length (f a h) = length h"
  shows "length (fold f as h) = length h"
  using assms by (induction as arbitrary: h) simp_all

lemma relevel_nth:
  "b < length h \<Longrightarrow>
   fold (\<lambda>a h. if \<not> level_is_overridden (h ! a) then h[a := (h ! a)\<lparr>level := lvl\<rparr>] else h) as h ! b =
     (if b \<in> set as \<and> \<not> level_is_overridden (h ! b) then (h ! b)\<lparr>level := lvl\<rparr> else h ! b)"
proof (induction as arbitrary: h)
  case Nil
  then show ?case by simp
next
  case (Cons a as)
  let ?h = "if \<not> level_is_overridden (h ! a) then h[a := (h ! a)\<lparr>level := lvl\<rparr>] else h"
  have len: "b < length ?h" using Cons.prems by simp
  have nth: "?h ! b = (if a = b \<and> \<not> level_is_overridden (h ! b) then (h ! b)\<lparr>level := lvl\<rparr> else h ! b)"
    using Cons.prems by (cases "a = b") (auto simp: nth_list_update)
  show ?case
    using Cons.IH[OF len] nth by auto
qed

lemma relevel_length:
  "length (fold (\<lambda>a h. if \<not> level_is_overridden (h ! a) then h[a := (h ! a)\<lparr>level := lvl\<rparr>] else h) as h) = length h"
  by (rule fold_length_upd) simp

lemma reset_nth:
  "b < length h \<Longrightarrow>
   fold (\<lambda>a h. h[a := (h ! a)\<lparr>level := lvl, level_is_overridden := False\<rparr>]) as h ! b =
     (if b \<in> set as then (h ! b)\<lparr>level := lvl, level_is_overridden := False\<rparr> else h ! b)"
proof (induction as arbitrary: h)
  case Nil
  then show ?case by simp
next
  case (Cons a as)
  let ?h = "h[a := (h ! a)\<lparr>level := lvl, level_is_overridden := False\<rparr>]"
  have len: "b < length ?h" using Cons.prems by simp
  have nth: "?h ! b = (if a = b then (h ! b)\<lparr>level := lvl, level_is_overridden := False\<rparr> else h ! b)"
    using Cons.prems by (auto simp: nth_list_update)
  show ?case
    using Cons.IH[OF len] nth by auto
qed

lemma reset_length:
  "length (fold (\<lambda>a h. h[a := (h ! a)\<lparr>level := lvl, level_is_overridden := False\<rparr>]) as h) = length h"
  by (rule fold_length_upd) simp

lemma wf_lookup:
  "wf_state st \<Longrightarrow> map_of (loggers st) n = Some a \<Longrightarrow>
     a < length (heap st) \<and> name (heap st ! a) = n \<and> path (heap st ! a) = log_path st n \<and> a \<in> snd ` set (loggers st)"
  by (force simp: wf_state_def logger_ok_def dest: map_of_SomeD)

lemma wf_addr_inj:
  "wf_state st \<Longrightarrow> map_of (loggers st) n = Some a \<Longrightarrow> map_of (loggers st) m = Some a \<Longrightarrow> n = m"
  by (metis wf_lookup)

lemma goc_existing:
  "map_of (loggers st) n = Some a \<Longrightarrow> get_or_create_log_channel n st = (a, st)"
  by (simp add: get_or_create_log_channel_def)

lemma goc_new:
  "map_of (loggers st) n = None \<Longrightarrow>
   get_or_create_log_channel n st =
     (length (heap st),
      st\<lparr>heap := heap st @ [new_logger st n],
         loggers := loggers st @ [(n, length (heap st))],
         files := (files st)(log_path st n \<mapsto> [])\<rparr>)"
  by (cases "map_of (level_overrides st) n")
     (simp_all add: get_or_create_log_channel_def Logger_init_def truncate_file_def 
       set_level_def new_logger_def log_path_def Let_def)

lemma wf_goc: 
  assumes "wf_state st" shows "wf_state (snd (get_or_create_log_channel n st))"
proof (cases "map_of (loggers st) n")
  case None
  have fresh: "\<And>m b. (m, b) \<in> set (loggers st) \<Longrightarrow> b < length (heap st) \<and> m \<noteq> n"
    using assms None by (force simp: wf_state_def logger_ok_def map_of_eq_None_iff)
  have "n \<notin> fst ` set (loggers st)" using None by (simp add: map_of_eq_None_iff)
  moreover have "length (heap st) \<notin> snd ` set (loggers st)" using fresh by force
  ultimately show ?thesis using assms fresh
    by (auto simp: goc_new[OF None] wf_state_def logger_ok_def nth_append new_logger_def log_path_def)
next
  case (Some a)
  then show ?thesis using assms by (simp add: goc_existing)
qed


lemma wf_same_frame:
  assumes "wf_state st" "loggers st' = loggers st" "LOGDIR st' = LOGDIR st"
    "length (heap st') = length (heap st)"
    "\<And>b. b < length (heap st) \<Longrightarrow>
        name (heap st' ! b) = name (heap st ! b) \<and> path (heap st' ! b) = path (heap st ! b)"
  shows "wf_state st'"
proof -
  have "logger_ok st' a \<and> name (heap st' ! a) = n" if "(n, a) \<in> set (loggers st)" for n a
  proof -
    from that assms(1) have ok: "logger_ok st a" "name (heap st ! a) = n"
      by (auto simp: wf_state_def)
    then have "a < length (heap st)" by (simp add: logger_ok_def)
    with assms(3,4) assms(5)[of a] ok show ?thesis by (simp add: logger_ok_def log_path_def)
  qed
  with assms(1,2) show ?thesis by (auto simp: wf_state_def)
qed

lemma goc_lookup:
  "map_of (loggers (snd (get_or_create_log_channel n st))) n = Some (fst (get_or_create_log_channel n st))"
proof (cases "map_of (loggers st) n")
  case None
  then show ?thesis by (simp add: goc_new map_of_append map_add_def)
next
  case (Some a)
  then show ?thesis by (simp add: goc_existing)
qed

lemma goc_fields:
  "default_log_level (snd (get_or_create_log_channel n st)) = default_log_level st"
  "level_overrides (snd (get_or_create_log_channel n st)) = level_overrides st"
  "config_file (snd (get_or_create_log_channel n st)) = config_file st"
  "stdout (snd (get_or_create_log_channel n st)) = stdout st"
  "LOGDIR (snd (get_or_create_log_channel n st)) = LOGDIR st"
  by (cases "map_of (loggers st) n"; simp add: goc_new goc_existing)+

lemma channel_goc:
  assumes "wf_state st"
  shows "channel (snd (get_or_create_log_channel n st)) m =
     (if m = n \<and> map_of (loggers st) n = None
      then Some (level (new_logger st n), level_is_overridden (new_logger st n))
      else channel st m)"
proof (cases "map_of (loggers st) n")
  case None
  show ?thesis
  proof (cases "map_of (loggers st) m")
    case N2: None
    then show ?thesis using None
      by (auto simp: channel_def goc_new map_of_append map_add_def)
  next
    case (Some b)
    then have "b < length (heap st)" "m \<noteq> n" using assms wf_lookup None by auto
    then show ?thesis using None Some
      by (simp add: channel_def goc_new map_of_append map_add_def nth_append)
  qed
next
  case (Some a)
  then show ?thesis by (auto simp: goc_existing channel_def)
qed

lemma set_default_fields:
  "loggers (set_default_log_level l st) = loggers st"
  "default_log_level (set_default_log_level l st) = l"
  "level_overrides (set_default_log_level l st) = AList.update ''default'' l (level_overrides st)"
  "config_file (set_default_log_level l st) = Some (AList.update ''default'' l (level_overrides st))"
  "LOGDIR (set_default_log_level l st) = LOGDIR st"
  "length (heap (set_default_log_level l st)) = length (heap st)"
  by (simp_all add: set_default_log_level_def rewrite_json_def print_def Let_def relevel_length)

lemma set_default_heap:
  "b < length (heap st) \<Longrightarrow>
   heap (set_default_log_level l st) ! b =
     (if b \<in> snd ` set (loggers st) \<and> \<not> level_is_overridden (heap st ! b)
      then (heap st ! b)\<lparr>level := l\<rparr> else heap st ! b)"
  by (simp add: set_default_log_level_def rewrite_json_def print_def Let_def relevel_nth)

lemma wf_set_default:
  assumes "wf_state st" shows "wf_state (set_default_log_level l st)"
  by (rule wf_same_frame[OF assms]) (simp_all add: set_default_fields set_default_heap)

lemma channel_set_default:
  assumes "wf_state st"
  shows "channel (set_default_log_level l st) m =
           map_option (\<lambda>(lv, ov). (if ov then lv else l, ov)) (channel st m)"
proof (cases "map_of (loggers st) m")
  case None
  then show ?thesis by (simp add: channel_def set_default_fields)
next
  case (Some b)
  then show ?thesis using wf_lookup[OF assms Some]
    by (simp add: channel_def set_default_fields set_default_heap)
qed

lemma reset_fields:
  "loggers (reset_log_levels st) = loggers st"
  "default_log_level (reset_log_levels st) = INFO"
  "level_overrides (reset_log_levels st) = [(''default'', INFO)]"
  "config_file (reset_log_levels st) = Some [(''default'', INFO)]"
  "LOGDIR (reset_log_levels st) = LOGDIR st"
  "length (heap (reset_log_levels st)) = length (heap st)"
  by (simp_all add: reset_log_levels_def rewrite_json_def print_def Let_def reset_length)

lemma reset_heap:
  "b < length (heap st) \<Longrightarrow>
   heap (reset_log_levels st) ! b =
     (if b \<in> snd ` set (loggers st)
      then (heap st ! b)\<lparr>level := INFO, level_is_overridden := False\<rparr> else heap st ! b)"
  by (simp add: reset_log_levels_def rewrite_json_def print_def Let_def reset_nth)

lemma wf_reset:
  assumes "wf_state st" shows "wf_state (reset_log_levels st)"
  by (rule wf_same_frame[OF assms]) (simp_all add: reset_fields reset_heap)

lemma channel_reset:
  assumes "wf_state st"
  shows "channel (reset_log_levels st) m = map_option (\<lambda>_. (INFO, False)) (channel st m)"
proof (cases "map_of (loggers st) m")
  case None
  then show ?thesis by (simp add: channel_def reset_fields)
next
  case (Some b)
  then show ?thesis using wf_lookup[OF assms Some]
    by (simp add: channel_def reset_fields reset_heap)
qed

lemma set_level_override_eq:
  "set_level_override n l st =
     rewrite_json (set_level (fst (get_or_create_log_channel n st)) l
       ((snd (get_or_create_log_channel n st))
          \<lparr>level_overrides := AList.update n l (level_overrides st)\<rparr>))"
  by (simp add: set_level_override_def Let_def split_beta goc_fields)

lemma override_fields:
  "loggers (set_level_override n l st) = loggers (snd (get_or_create_log_channel n st))"
  "default_log_level (set_level_override n l st) = default_log_level st"
  "level_overrides (set_level_override n l st) = AList.update n l (level_overrides st)"
  "config_file (set_level_override n l st) = Some (AList.update n l (level_overrides st))"
  "LOGDIR (set_level_override n l st) = LOGDIR st"
  "length (heap (set_level_override n l st)) = length (heap (snd (get_or_create_log_channel n st)))"
  by (simp_all add: set_level_override_eq rewrite_json_def print_def set_level_def goc_fields)

lemma override_heap:
  "heap (set_level_override n l st) =
     (heap (snd (get_or_create_log_channel n st)))
       [fst (get_or_create_log_channel n st) :=
          (heap (snd (get_or_create_log_channel n st)) ! fst (get_or_create_log_channel n st))
            \<lparr>level := l, level_is_overridden := True\<rparr>]"
  by (simp add: set_level_override_eq rewrite_json_def print_def set_level_def)

lemma wf_override:
  assumes "wf_state st" shows "wf_state (set_level_override n l st)"
proof -
  let ?st1 = "snd (get_or_create_log_channel n st)"
  have "wf_state ?st1" using assms by (rule wf_goc)
  moreover have "fst (get_or_create_log_channel n st) < length (heap ?st1)"
    using wf_lookup[OF \<open>wf_state ?st1\<close> goc_lookup] by simp
  ultimately show ?thesis
    by (rule_tac wf_same_frame[of ?st1])
       (simp_all add: override_fields override_heap goc_fields nth_list_update)
qed

lemma channel_override:
  assumes "wf_state st"
  shows "channel (set_level_override n l st) m =
           (if m = n then Some (l, True) else channel (snd (get_or_create_log_channel n st)) m)"
proof -
  let ?st1 = "snd (get_or_create_log_channel n st)"
  let ?a = "fst (get_or_create_log_channel n st)"
  have wf1: "wf_state ?st1" using assms by (rule wf_goc)
  have la: "map_of (loggers ?st1) n = Some ?a" by (rule goc_lookup)
  have len: "?a < length (heap ?st1)" using wf_lookup[OF wf1 la] by simp
  show ?thesis
  proof (cases "m = n")
    case True
    then show ?thesis using la len
      by (simp add: channel_def override_fields override_heap)
  next
    case False
    show ?thesis
    proof (cases "map_of (loggers ?st1) m")
      case None
      then show ?thesis using False by (simp add: channel_def override_fields)
    next
      case (Some b)
      have "b \<noteq> ?a" using wf_addr_inj[OF wf1 Some] la False by auto
      then show ?thesis using Some False
        by (simp add: channel_def override_fields override_heap)
    qed
  qed
qed


section \<open>Accepting and rejecting a message\<close>

lemma log_message_accept:
  assumes "logger_ok st a" "0 \<le> s" "s \<le> 6" "s \<le> level (heap st ! a)"
  shows "log_message a s message extra st =
     Inr (st\<lparr>stdout := stdout st @ [long_line (name (heap st ! a)) s message extra],
             files := (files st)
               (path (heap st ! a) \<mapsto>
                  file_content st (path (heap st ! a)) @ short_line s message extra @ [CHR 0x0A],
                COMBINED st \<mapsto>
                  file_content st (COMBINED st) @
                  long_line (name (heap st ! a)) s message extra @ [CHR 0x0A])\<rparr>)"
  using assms log_path_not_combined[of st "name (heap st ! a)"]
  by (simp add: log_message_def py_index_LOGLEVELS Let_def append_file_def print_def
       long_line_def short_line_def extra_text_def JUSTIFICATION_def file_content_def
       logger_ok_def COMBINED_def)

lemma log_message_reject:
  "\<not> s \<le> level (heap st ! a) \<Longrightarrow> log_message a s message extra st = Inr st"
  by (simp add: log_message_def Let_def)

lemma not_recorded_same: "\<not> recorded a s message extra st st"
  by (auto simp: recorded_def file_content_def split: option.splits)

lemma accept_recorded:
  assumes "logger_ok st a"
  shows "recorded a s message extra st
     (st\<lparr>stdout := out,
         files := (files st)
           (path (heap st ! a) \<mapsto>
              file_content st (path (heap st ! a)) @ short_line s message extra @ [CHR 0x0A],
            COMBINED st \<mapsto>
              file_content st (COMBINED st) @
              long_line (name (heap st ! a)) s message extra @ [CHR 0x0A])\<rparr>)"
  using assms log_path_not_combined[of st "name (heap st ! a)"]
  by (simp add: recorded_def logger_ok_def)

lemma state_z_eq:
  "state_z =
     \<lparr>LOGDIR = ''/logs'', CONFIG = ''/config/log_levels.json'', START = 0,
      heap = [\<lparr>name = ''z'', level = 3, level_is_overridden = False,
               path = ''/logs/separated.z.txt'', time_stamp = 0\<rparr>],
      loggers = [(''z'', 0)], default_log_level = 3, level_overrides = [(''default'', 3)],
      files = [''/logs/combined.txt'' \<mapsto> [], ''/logs/separated.z.txt'' \<mapsto> []],
      config_file = Some [(''default'', 3)],
      stdout = [''Log config does not exist. Creating empty template.'',
                ''Will rewrite log config /config/log_levels.json'']\<rparr>"
  by (simp add: state_z_def world0_def internal_LogService_init_def rewrite_json_def print_def
        truncate_file_def COMBINED_def path_join_def get_or_create_log_channel_def
        Logger_init_def log_path_def INFO_def Let_def)

lemma state_z_ok: "logger_ok state_z 0"
  by (simp add: state_z_eq logger_ok_def log_path_def path_join_def)

text \<open>
  Claim C1. A message of severity \<open>s\<close> in \<open>0..6\<close> sent to a channel with threshold
  \<open>t\<close> is recorded (the short line appended to the channel's own file, the long line to
  the combined file) if and only if \<open>s \<le> t\<close>. When it is accepted the long line is also
  printed and nothing else changes; when \<open>s > t\<close> the state is left as it was: no file
  receives a line and nothing is printed.
\<close>

theorem log_message_recorded_iff:
  assumes "logger_ok st a" "0 \<le> s" "s \<le> 6"
  shows "\<exists>st'. log_message a s message extra st = Inr st' \<and>
           (recorded a s message extra st st' \<longleftrightarrow> s \<le> level (heap st ! a)) \<and>
           (s \<le> level (heap st ! a) \<longrightarrow>
              stdout st' = stdout st @ [long_line (name (heap st ! a)) s message extra] \<and>
              (\<forall>p. p \<noteq> path (heap st ! a) \<and> p \<noteq> COMBINED st \<longrightarrow> files st' p = files st p) \<and>
              heap st' = heap st) \<and>
           (\<not> s \<le> level (heap st ! a) \<longrightarrow> st' = st)"
proof (cases "s \<le> level (heap st ! a)")
  case True
  show ?thesis
    unfolding log_message_accept[OF assms True]
    using True accept_recorded[OF assms(1)] by simp
next
  case False
  then show ?thesis
    using not_recorded_same by (simp add: log_message_reject)
qed

theorem log_message_recorded_iff_witness:
  "logger_ok state_z 0 \<and> WARN \<le> level (heap state_z ! 0) \<and> \<not> TRACE \<le> level (heap state_z ! 0) \<and>
   (\<exists>st'. warn 0 ''x'' PyNone state_z = Inr st' \<and> recorded 0 WARN ''x'' PyNone state_z st' \<and>
          short_line WARN ''x'' PyNone = ''[WARN ] x'' \<and>
          stdout st' = stdout state_z @ [''[WARN ] z ......................................: x'']) \<and>
   trace 0 ''y'' PyNone state_z = Inr state_z"
proof -
  have lvl: "level (heap state_z ! 0) = 3" by (simp add: state_z_eq)
  have nm: "long_line (name (heap state_z ! 0)) 2 ''x'' PyNone =
              ''[WARN ] z ......................................: x''"
    by (simp add: state_z_eq long_line_def LOGLEVELS_def ljust_def extra_text_def eval_nat_numeral)
  have sh: "short_line 2 ''x'' PyNone = ''[WARN ] x''"
    by (simp add: short_line_def LOGLEVELS_def extra_text_def eval_nat_numeral)
  obtain st' where a: "log_message 0 2 ''x'' PyNone state_z = Inr st'"
      and b: "recorded 0 2 ''x'' PyNone state_z st' \<longleftrightarrow> (2::int) \<le> level (heap state_z ! 0)"
      and c: "(2::int) \<le> level (heap state_z ! 0) \<longrightarrow>
              stdout st' = stdout state_z @ [long_line (name (heap state_z ! 0)) 2 ''x'' PyNone]"
    using log_message_recorded_iff[OF state_z_ok, of 2 "''x''" PyNone] by auto
  obtain st'' where d: "log_message 0 5 ''y'' PyNone state_z = Inr st''"
      and e: "\<not> (5::int) \<le> level (heap state_z ! 0) \<longrightarrow> st'' = state_z"
    using log_message_recorded_iff[OF state_z_ok, of 5 "''y''" PyNone] by auto
  show ?thesis
    using a b c d e state_z_ok lvl nm sh by (simp add: warn_def trace_def WARN_def TRACE_def)
qed

text \<open>
  Claim C6. \<^verbatim>\<open>dump\<close> records a message of severity DUMP if and only if the channel's
  threshold is greater than TRACE, that is greater than 5. The extra text of the record is a
  newline followed by the value itself when it is a string and by its pretty-printed form
  otherwise. With a threshold of at most TRACE the state is left as it was.
\<close>

theorem dump_recorded_iff:
  assumes "logger_ok st a"
  shows "\<exists>st'. dump a message v st = Inr st' \<and>
           (recorded a DUMP message (PyStr (dump_text v)) st st' \<longleftrightarrow> 5 < level (heap st ! a)) \<and>
           (5 < level (heap st ! a) \<longrightarrow>
              dump a message v st = log_message a DUMP message (PyStr (dump_text v)) st \<and>
              stdout st' =
                stdout st @ [long_line (name (heap st ! a)) DUMP message (PyStr (dump_text v))]) \<and>
           (level (heap st ! a) \<le> 5 \<longrightarrow> st' = st)"
proof (cases "5 < level (heap st ! a)")
  case True
  then have le: "(6::int) \<le> level (heap st ! a)" by simp
  have eq: "dump a message v st = log_message a 6 message (PyStr (dump_text v)) st"
    using True by (cases v) (simp_all add: dump_def TRACE_def DUMP_def dump_text_def)
  have acc: "log_message a 6 message (PyStr (dump_text v)) st = Inr
     (st\<lparr>stdout := stdout st @ [long_line (name (heap st ! a)) 6 message (PyStr (dump_text v))],
         files := (files st)
           (path (heap st ! a) \<mapsto>
              file_content st (path (heap st ! a)) @
              short_line 6 message (PyStr (dump_text v)) @ [CHR 0x0A],
            COMBINED st \<mapsto>
              file_content st (COMBINED st) @
              long_line (name (heap st ! a)) 6 message (PyStr (dump_text v)) @ [CHR 0x0A])\<rparr>)"
    using log_message_accept[OF assms _ _ le] by simp
  show ?thesis
    using True eq acc accept_recorded[OF assms, of 6 message "PyStr (dump_text v)"]
    by (simp add: DUMP_def)
next
  case False
  then show ?thesis
    using not_recorded_same by (simp add: dump_def TRACE_def)
qed

theorem dump_recorded_iff_witness:
  "logger_ok state_z6 0 \<and> 5 < level (heap state_z6 ! 0) \<and>
   (\<exists>st'. dump 0 ''m'' (PyInt 7) state_z6 = Inr st' \<and>
          recorded 0 6 ''m'' (PyStr [CHR 0x0A, CHR ''7'']) state_z6 st') \<and>
   logger_ok state_z 0 \<and> level (heap state_z ! 0) \<le> 5 \<and>
   dump 0 ''m'' (PyInt 7) state_z = Inr state_z"
proof -
  have ok: "logger_ok state_z6 0"
    by (simp add: state_z6_def set_level_def state_z_eq logger_ok_def log_path_def path_join_def)
  have lvl: "level (heap state_z6 ! 0) = 6" "level (heap state_z ! 0) = 3"
    by (simp_all add: state_z6_def set_level_def state_z_eq)
  have ser: "dump_text (PyInt 7) = [CHR 0x0A, CHR ''7'']"
    by (simp add: dump_text_def pformat_def str_int_def str_nat.simps digit_char_def)
  show ?thesis
    using dump_recorded_iff[OF ok, of "''m''" "PyInt 7"]
      dump_recorded_iff[OF state_z_ok, of "''m''" "PyInt 7"] ok state_z_ok lvl ser
    by (auto simp: DUMP_def)
qed

section \<open>Thresholds, overrides and reset\<close>

lemma channel_goc_other:
  "wf_state st \<Longrightarrow> m \<noteq> n \<Longrightarrow> channel (snd (get_or_create_log_channel n st)) m = channel st m"
  by (simp add: channel_goc)

lemma wf_step: "wf_state st \<Longrightarrow> wf_state (step x st)"
  by (cases x) (simp_all add: wf_goc wf_set_default wf_override wf_reset)

lemma wf_run: "wf_state st \<Longrightarrow> wf_state (run ops st)"
  unfolding run_def by (induction ops arbitrary: st) (simp_all add: wf_step)

lemma init_fields:
  "loggers (internal_LogService_init w) = []"
  "config_file w = None \<Longrightarrow> level_overrides (internal_LogService_init w) = [(''default'', INFO)]"
  "config_file w = None \<Longrightarrow> default_log_level (internal_LogService_init w) = INFO"
  "config_file w = None \<Longrightarrow> config_file (internal_LogService_init w) = Some [(''default'', INFO)]"
  "config_file w = Some js \<Longrightarrow> level_overrides (internal_LogService_init w) = js"
  "config_file w = Some js \<Longrightarrow> config_file (internal_LogService_init w) = Some js"
  "config_file w = Some js \<Longrightarrow> default_log_level (internal_LogService_init w) =
     (case map_of js ''default'' of Some d \<Rightarrow> d | None \<Rightarrow> INFO)"
  by (simp_all add: internal_LogService_init_def rewrite_json_def print_def truncate_file_def
        Let_def split: option.splits)

lemma wf_init: "wf_state (internal_LogService_init w)"
  by (simp add: wf_state_def init_fields)

lemma channel_init: "channel (internal_LogService_init w) n = None"
  by (simp add: channel_def init_fields)

text \<open>
  Claim C2. After \<^verbatim>\<open>set_level_override(n, L)\<close> the channel \<open>n\<close> has threshold \<open>L\<close>
  and its overridden flag is set. A following \<^verbatim>\<open>set_default_log_level(L2)\<close> leaves
  channel \<open>n\<close> at \<open>L\<close>, and gives every existing channel whose flag is not set the
  threshold \<open>L2\<close>; channels whose flag is set keep theirs, and no flag changes.
\<close>

theorem override_survives_default:
  assumes "wf_state st"
  shows "channel (set_level_override n L st) n = Some (L, True) \<and>
         channel (set_default_log_level L2 (set_level_override n L st)) n = Some (L, True) \<and>
         (\<forall>m lv ov. channel (set_level_override n L st) m = Some (lv, ov) \<longrightarrow>
            channel (set_default_log_level L2 (set_level_override n L st)) m =
              Some (if ov then lv else L2, ov))"
  using assms by (simp add: channel_override channel_set_default wf_override)

text \<open>
  Claim C5. After \<^verbatim>\<open>reset_log_levels()\<close> the default level is INFO (3), the overrides
  table is exactly \<^verbatim>\<open>{"default": 3}\<close> and the configuration file holds that table, the
  registry has the channels it had, and every one of them has threshold 3 and its
  overridden flag cleared.
\<close>

theorem reset_restores_info:
  assumes "wf_state st"
  shows "default_log_level (reset_log_levels st) = 3 \<and>
         level_overrides (reset_log_levels st) = [(''default'', 3)] \<and>
         config_file (reset_log_levels st) = Some [(''default'', 3)] \<and>
         loggers (reset_log_levels st) = loggers st \<and>
         (\<forall>m. channel st m \<noteq> None \<longrightarrow> channel (reset_log_levels st) m = Some (3, False))"
  using assms by (auto simp: reset_fields channel_reset INFO_def)

lemma overrides_invI:
  assumes "\<And>n lv ov. n \<in> fst ` set (level_overrides st) \<Longrightarrow> n \<noteq> ''default'' \<Longrightarrow>
             channel st n = Some (lv, ov) \<Longrightarrow> ov"
  shows "overrides_inv st"
  unfolding overrides_inv_def using assms by (auto split: option.splits)

lemma overrides_invD:
  "overrides_inv st \<Longrightarrow> n \<in> fst ` set (level_overrides st) \<Longrightarrow> n \<noteq> ''default'' \<Longrightarrow>
   channel st n = Some (lv, ov) \<Longrightarrow> ov"
  unfolding overrides_inv_def by (auto split: option.splits)

lemma overrides_inv_step:
  assumes "wf_state st" "overrides_inv st"
  shows "overrides_inv (step x st)"
proof (cases x)
  case (GetOrCreate n)
  show ?thesis
  proof (rule overrides_invI)
    fix m lv ov
    assume m: "m \<in> fst ` set (level_overrides (step x st))" "m \<noteq> ''default''"
       and c: "channel (step x st) m = Some (lv, ov)"
    from m have mo: "m \<in> fst ` set (level_overrides st)" by (simp add: GetOrCreate goc_fields)
    then have some: "map_of (level_overrides st) m \<noteq> None" by (simp add: map_of_eq_None_iff)
    show ov
    proof (cases "m = n \<and> map_of (loggers st) n = None")
      case True
      then show ?thesis using c some assms(1)
        by (simp add: GetOrCreate channel_goc new_logger_def)
    next
      case False
      then have "channel st m = Some (lv, ov)" using c assms(1)
        by (auto simp: GetOrCreate channel_goc split: if_splits)
      then show ?thesis using overrides_invD[OF assms(2) mo m(2)] by simp
    qed
  qed
next
  case (SetDefault l)
  show ?thesis
  proof (rule overrides_invI)
    fix m lv ov
    assume m: "m \<in> fst ` set (level_overrides (step x st))" "m \<noteq> ''default''"
       and c: "channel (step x st) m = Some (lv, ov)"
    from m have mo: "m \<in> fst ` set (level_overrides st)"
      by (auto simp: SetDefault set_default_fields AList.dom_update)
    from c obtain lv' where "channel st m = Some (lv', ov)" using assms(1)
      by (auto simp: SetDefault channel_set_default)
    then show ov using overrides_invD[OF assms(2) mo m(2)] by simp
  qed
next
  case (SetOverride n l)
  show ?thesis
  proof (rule overrides_invI)
    fix m lv ov
    assume m: "m \<in> fst ` set (level_overrides (step x st))" "m \<noteq> ''default''"
       and c: "channel (step x st) m = Some (lv, ov)"
    show ov
    proof (cases "m = n")
      case True
      then show ?thesis using c assms(1) by (simp add: SetOverride channel_override)
    next
      case False
      then have mo: "m \<in> fst ` set (level_overrides st)" using m
        by (auto simp: SetOverride override_fields AList.dom_update)
      have "channel st m = Some (lv, ov)" using c assms(1) False
        by (simp add: SetOverride channel_override channel_goc)
      then show ?thesis using overrides_invD[OF assms(2) mo m(2)] by simp
    qed
  qed
next
  case ResetAll
  then show ?thesis by (simp add: overrides_inv_def reset_fields)
qed

lemma channel_registered: "channel st n = Some c \<Longrightarrow> n \<in> fst ` set (loggers st)"
  by (auto simp: channel_def dest: map_of_SomeD intro: rev_image_eqI)


lemma overrides_inv_init: "overrides_inv (internal_LogService_init w)"
  by (simp add: overrides_inv_def channel_init)

lemma state_z_wf: "wf_state state_z"
  by (simp add: state_z_eq wf_state_def logger_ok_def log_path_def path_join_def)

lemma state_z_channel: "channel state_z ''z'' = Some (3, False)"
  by (simp add: state_z_eq channel_def)

theorem override_survives_default_witness:
  "wf_state state_z \<and>
   channel (set_level_override ''net'' 5 state_z) ''net'' = Some (5, True) \<and>
   channel (set_default_log_level 1 (set_level_override ''net'' 5 state_z)) ''net'' = Some (5, True) \<and>
   channel (set_default_log_level 1 (set_level_override ''net'' 5 state_z)) ''z'' = Some (1, False)"
proof -
  have z: "channel (set_level_override ''net'' 5 state_z) ''z'' = Some (3, False)"
    by (simp add: channel_override channel_goc state_z_wf state_z_channel)
  show ?thesis
    using override_survives_default[OF state_z_wf, of "''net''" 5 1] z state_z_wf by fastforce
qed

theorem reset_restores_info_witness:
  "wf_state state_z6 \<and> channel state_z6 ''z'' = Some (6, True) \<and>
   default_log_level (reset_log_levels state_z6) = 3 \<and>
   level_overrides (reset_log_levels state_z6) = [(''default'', 3)] \<and>
   channel (reset_log_levels state_z6) ''z'' = Some (3, False)"
proof -
  have wf: "wf_state state_z6"
    by (simp add: state_z6_def set_level_def state_z_eq wf_state_def logger_ok_def log_path_def
          path_join_def)
  have c: "channel state_z6 ''z'' = Some (6, True)"
    by (simp add: state_z6_def set_level_def state_z_eq channel_def)
  show ?thesis
    using reset_restores_info[OF wf] wf c by fastforce
qed

lemma state_net_eq:
  "state_net =
     \<lparr>LOGDIR = ''/logs'', CONFIG = ''/config/log_levels.json'', START = 0,
      heap = [\<lparr>name = ''z'', level = 3, level_is_overridden = False,
               path = ''/logs/separated.z.txt'', time_stamp = 0\<rparr>,
              \<lparr>name = ''net'', level = 5, level_is_overridden = True,
               path = ''/logs/separated.net.txt'', time_stamp = 0\<rparr>],
      loggers = [(''z'', 0), (''net'', 1)], default_log_level = 3,
      level_overrides = [(''default'', 3), (''net'', 5)],
      files = [''/logs/combined.txt'' \<mapsto> [], ''/logs/separated.z.txt'' \<mapsto> [],
               ''/logs/separated.net.txt'' \<mapsto> []],
      config_file = Some [(''default'', 3), (''net'', 5)],
      stdout = [''Log config does not exist. Creating empty template.'',
                ''Will rewrite log config /config/log_levels.json'',
                ''Will rewrite log config /config/log_levels.json'']\<rparr>"
  by (simp add: state_net_def state_z_eq set_level_override_def get_or_create_log_channel_def
        Logger_init_def log_path_def path_join_def truncate_file_def set_level_def
        rewrite_json_def print_def Let_def)

lemma state_net_wf: "wf_state state_net"
  by (simp add: state_net_eq wf_state_def logger_ok_def log_path_def path_join_def)

lemma state_net_inv: "overrides_inv state_net"
  by (simp add: state_net_eq overrides_inv_def channel_def)

text \<open>
  Claim C7. The invariant that every existing channel whose name is in the overrides table,
  other than \<^verbatim>\<open>"default"\<close>, has its overridden flag set is kept by
  \<^verbatim>\<open>get_or_create_log_channel\<close>, \<^verbatim>\<open>set_default_log_level\<close>,
  \<^verbatim>\<open>set_level_override\<close> and \<^verbatim>\<open>reset_log_levels\<close>, and it holds in a newly
  constructed registry.
\<close>

theorem overrides_inv_preserved:
  assumes "wf_state st" "overrides_inv st"
  shows "overrides_inv (snd (get_or_create_log_channel n st)) \<and>
         overrides_inv (set_default_log_level l st) \<and>
         overrides_inv (set_level_override n l st) \<and>
         overrides_inv (reset_log_levels st) \<and>
         overrides_inv (internal_LogService_init w)"
  using overrides_inv_step[OF assms, of "GetOrCreate n"] overrides_inv_step[OF assms, of "SetDefault l"]
    overrides_inv_step[OF assms, of "SetOverride n l"] overrides_inv_step[OF assms, of ResetAll]
    overrides_inv_init
  by simp

theorem overrides_inv_preserved_witness:
  "wf_state state_net \<and> overrides_inv state_net \<and>
   ''net'' \<in> fst ` set (level_overrides state_net) \<and> channel state_net ''net'' = Some (5, True) \<and>
   overrides_inv (snd (get_or_create_log_channel ''net'' state_net)) \<and>
   overrides_inv (set_default_log_level 1 state_net) \<and>
   overrides_inv (set_level_override ''z'' 2 state_net) \<and>
   overrides_inv (reset_log_levels state_net)"
proof -
  have "''net'' \<in> fst ` set (level_overrides state_net)" "channel state_net ''net'' = Some (5, True)"
    by (simp_all add: state_net_eq channel_def)
  then show ?thesis
    using overrides_inv_preserved[OF state_net_wf state_net_inv, of "''net''" 1]
      overrides_inv_preserved[OF state_net_wf state_net_inv, of "''z''" 2]
      state_net_wf state_net_inv by simp
qed


section \<open>Reloading the persisted configuration\<close>

lemma level_for_cong:
  "level_overrides st' = level_overrides st \<Longrightarrow> default_log_level st' = default_log_level st \<Longrightarrow>
   level_for st' n = level_for st n"
  by (simp add: level_for_def split: option.splits)

lemma persisted_invI:
  assumes "config_file st = Some (level_overrides st)"
    "default_log_level st =
       (case map_of (level_overrides st) ''default'' of Some d \<Rightarrow> d | None \<Rightarrow> INFO)"
    "\<And>n lv ov. n \<noteq> ''default'' \<Longrightarrow> channel st n = Some (lv, ov) \<Longrightarrow>
        (ov \<longleftrightarrow> map_of (level_overrides st) n \<noteq> None) \<and> lv = level_for st n"
  shows "persisted_inv st"
  unfolding persisted_inv_def using assms by (auto split: option.splits)

lemma persisted_inv_file: "persisted_inv st \<Longrightarrow> config_file st = Some (level_overrides st)"
  by (simp add: persisted_inv_def)

lemma persisted_inv_default:
  "persisted_inv st \<Longrightarrow> default_log_level st =
       (case map_of (level_overrides st) ''default'' of Some d \<Rightarrow> d | None \<Rightarrow> INFO)"
  by (simp add: persisted_inv_def)

lemma persisted_inv_channel:
  "persisted_inv st \<Longrightarrow> n \<noteq> ''default'' \<Longrightarrow> channel st n = Some (lv, ov) \<Longrightarrow>
     (ov \<longleftrightarrow> map_of (level_overrides st) n \<noteq> None) \<and> lv = level_for st n"
  using channel_registered[of st n "(lv, ov)"] unfolding persisted_inv_def
  by (auto split: option.splits)

lemma persisted_inv_init: "persisted_inv (internal_LogService_init w)"
  by (cases "config_file w") (simp_all add: persisted_inv_def init_fields channel_init)

lemma persisted_inv_goc:
  assumes "wf_state st" "persisted_inv st"
  shows "persisted_inv (snd (get_or_create_log_channel k st))"
proof -
  let ?st' = "snd (get_or_create_log_channel k st)"
  have lf: "level_for ?st' n = level_for st n" for n
    by (rule level_for_cong) (simp_all add: goc_fields)
  have ch: "(ov \<longleftrightarrow> map_of (level_overrides st) n \<noteq> None) \<and> lv = level_for st n"
    if "n \<noteq> ''default''" "channel ?st' n = Some (lv, ov)" for n lv ov
  proof (cases "n = k \<and> map_of (loggers st) k = None")
    case True
    have "channel ?st' n = Some (level (new_logger st k), level_is_overridden (new_logger st k))"
      using True by (simp add: channel_goc[OF assms(1)])
    with that(2) have "lv = level (new_logger st k)" "ov = level_is_overridden (new_logger st k)"
      by simp_all
    then show ?thesis using True by (simp add: new_logger_def level_for_def)
  next
    case False
    have "channel ?st' n = channel st n"
      using False by (simp only: channel_goc[OF assms(1)] if_False)
    then have "channel st n = Some (lv, ov)" using that(2) by simp
    then show ?thesis using persisted_inv_channel[OF assms(2) that(1)] by simp
  qed
  show ?thesis
  proof (rule persisted_invI)
    show "config_file ?st' = Some (level_overrides ?st')"
      using persisted_inv_file[OF assms(2)] by (simp add: goc_fields)
    show "default_log_level ?st' =
       (case map_of (level_overrides ?st') ''default'' of Some d \<Rightarrow> d | None \<Rightarrow> INFO)"
      using persisted_inv_default[OF assms(2)] by (simp add: goc_fields)
    show "(ov \<longleftrightarrow> map_of (level_overrides ?st') n \<noteq> None) \<and> lv = level_for ?st' n"
      if "n \<noteq> ''default''" "channel ?st' n = Some (lv, ov)" for n lv ov
      using ch[OF that] by (simp add: goc_fields lf)
  qed
qed

lemma persisted_inv_set_default:
  assumes "wf_state st" "persisted_inv st"
  shows "persisted_inv (set_default_log_level l st)"
proof -
  let ?st' = "set_default_log_level l st"
  have mo: "map_of (level_overrides ?st') n = map_of (level_overrides st) n" if "n \<noteq> ''default''" for n
    using that by (simp add: set_default_fields update_conv')
  have ch: "(ov \<longleftrightarrow> map_of (level_overrides ?st') n \<noteq> None) \<and> lv = level_for ?st' n"
    if n: "n \<noteq> ''default''" and c: "channel ?st' n = Some (lv, ov)" for n lv ov
  proof -
    from c obtain lv0 where c0: "channel st n = Some (lv0, ov)" and lv: "lv = (if ov then lv0 else l)"
      using assms(1) by (auto simp: channel_set_default)
    have old: "ov \<longleftrightarrow> map_of (level_overrides st) n \<noteq> None" "lv0 = level_for st n"
      using persisted_inv_channel[OF assms(2) n c0] by simp_all
    show ?thesis
      using old lv mo[OF n] by (auto simp: level_for_def set_default_fields split: option.splits)
  qed
  show ?thesis
  proof (rule persisted_invI)
    show "config_file ?st' = Some (level_overrides ?st')"
      by (simp add: set_default_fields)
    show "default_log_level ?st' =
       (case map_of (level_overrides ?st') ''default'' of Some d \<Rightarrow> d | None \<Rightarrow> INFO)"
      by (simp add: set_default_fields update_conv')
    show "(ov \<longleftrightarrow> map_of (level_overrides ?st') n \<noteq> None) \<and> lv = level_for ?st' n"
      if "n \<noteq> ''default''" "channel ?st' n = Some (lv, ov)" for n lv ov
      using ch[OF that] .
  qed
qed

lemma persisted_inv_override:
  assumes "wf_state st" "persisted_inv st" "k \<noteq> ''default''"
  shows "persisted_inv (set_level_override k l st)"
proof -
  let ?st' = "set_level_override k l st"
  have mo: "map_of (level_overrides ?st') n = map_of (level_overrides st) n" if "n \<noteq> k" for n
    using that by (simp add: override_fields update_conv')
  have ch: "(ov \<longleftrightarrow> map_of (level_overrides ?st') n \<noteq> None) \<and> lv = level_for ?st' n"
    if n: "n \<noteq> ''default''" and c: "channel ?st' n = Some (lv, ov)" for n lv ov
  proof (cases "n = k")
    case True
    then show ?thesis using c assms(1)
      by (simp add: channel_override level_for_def override_fields update_conv')
  next
    case False
    then have c0: "channel st n = Some (lv, ov)" using c assms(1)
      by (simp add: channel_override channel_goc)
    have old: "ov \<longleftrightarrow> map_of (level_overrides st) n \<noteq> None" "lv = level_for st n"
      using persisted_inv_channel[OF assms(2) n c0] by simp_all
    show ?thesis
      using old mo[OF False] by (simp add: level_for_def override_fields split: option.splits)
  qed
  have d: "map_of (level_overrides ?st') ''default'' = map_of (level_overrides st) ''default''"
    using assms(3) by (simp add: mo)
  show ?thesis
  proof (rule persisted_invI)
    show "config_file ?st' = Some (level_overrides ?st')"
      by (simp add: override_fields)
    show "default_log_level ?st' =
       (case map_of (level_overrides ?st') ''default'' of Some d \<Rightarrow> d | None \<Rightarrow> INFO)"
      using persisted_inv_default[OF assms(2)] d by (simp add: override_fields(2))
    show "(ov \<longleftrightarrow> map_of (level_overrides ?st') n \<noteq> None) \<and> lv = level_for ?st' n"
      if "n \<noteq> ''default''" "channel ?st' n = Some (lv, ov)" for n lv ov
      using ch[OF that] .
  qed
qed

lemma persisted_inv_reset:
  assumes "wf_state st"
  shows "persisted_inv (reset_log_levels st)"
proof (rule persisted_invI)
  show "config_file (reset_log_levels st) = Some (level_overrides (reset_log_levels st))"
    by (simp add: reset_fields)
  show "default_log_level (reset_log_levels st) =
     (case map_of (level_overrides (reset_log_levels st)) ''default'' of Some d \<Rightarrow> d | None \<Rightarrow> INFO)"
    by (simp add: reset_fields)
  show "(ov \<longleftrightarrow> map_of (level_overrides (reset_log_levels st)) n \<noteq> None) \<and>
        lv = level_for (reset_log_levels st) n"
    if "n \<noteq> ''default''" "channel (reset_log_levels st) n = Some (lv, ov)" for n lv ov
    using that assms by (auto simp: reset_fields channel_reset level_for_def)
qed

lemma persisted_inv_step:
  assumes "wf_state st" "persisted_inv st" "\<forall>n l. x = SetOverride n l \<longrightarrow> n \<noteq> ''default''"
  shows "persisted_inv (step x st)"
  using assms
  by (cases x)
     (simp_all add: persisted_inv_goc persisted_inv_set_default persisted_inv_override
        persisted_inv_reset)

lemma persisted_inv_run:
  assumes "wf_state st" "persisted_inv st"
    "\<forall>n l. SetOverride n l \<in> set ops \<longrightarrow> n \<noteq> ''default''"
  shows "persisted_inv (run ops st)"
  using assms unfolding run_def
proof (induction ops arbitrary: st)
  case Nil
  then show ?case by simp
next
  case (Cons x ops)
  have "persisted_inv (step x st)"
    using Cons.prems by (intro persisted_inv_step) auto
  moreover have "wf_state (step x st)" using Cons.prems(1) by (rule wf_step)
  moreover have "\<forall>n l. SetOverride n l \<in> set ops \<longrightarrow> n \<noteq> ''default''"
    using Cons.prems(3) by simp
  ultimately show ?case using Cons.IH[of "step x st"] by simp
qed

lemma run_creates_fields:
  "level_overrides (run (map GetOrCreate ns) st) = level_overrides st"
  "default_log_level (run (map GetOrCreate ns) st) = default_log_level st"
  unfolding run_def by (induction ns arbitrary: st; simp add: goc_fields)+

lemma channel_exists_after_create:
  assumes "wf_state st" "n \<in> set ns \<or> channel st n \<noteq> None"
  shows "channel (run (map GetOrCreate ns) st) n \<noteq> None"
  using assms unfolding run_def
proof (induction ns arbitrary: st)
  case Nil
  then show ?case by simp
next
  case (Cons k ns)
  let ?st' = "snd (get_or_create_log_channel k st)"
  have wf': "wf_state ?st'" using Cons.prems(1) by (rule wf_goc)
  have "n \<in> set ns \<or> channel ?st' n \<noteq> None"
  proof (cases "n = k")
    case True
    have "map_of (loggers ?st') k \<noteq> None" by (simp add: goc_lookup)
    then show ?thesis using True by (simp add: channel_def)
  next
    case False
    then show ?thesis using Cons.prems by (auto simp: channel_goc)
  qed
  then show ?case using Cons.IH[OF wf'] by simp
qed

lemma reload_fields:
  assumes "persisted_inv st"
  shows "level_overrides (internal_LogService_init st) = level_overrides st"
    and "default_log_level (internal_LogService_init st) = default_log_level st"
  using persisted_inv_file[OF assms] persisted_inv_default[OF assms]
  by (simp_all add: init_fields)

text \<open>
  Claim C3, as amended. Take any sequence of registry calls in which
  \<^verbatim>\<open>set_level_override\<close> is never given the reserved name \<^verbatim>\<open>"default"\<close>, run from a
  newly constructed registry. A registry constructed afterwards, which loads the
  configuration file the first one wrote, has the same default level and the same overrides
  table; and after \<^verbatim>\<open>get_or_create_log_channel\<close> for any list of names, each of these
  names other than \<^verbatim>\<open>"default"\<close> that had a channel in the first registry, so each
  overridden name, has a channel with the same threshold and the same overridden flag.
\<close>

theorem roundtrip_reload:
  assumes "\<forall>n l. SetOverride n l \<in> set ops \<longrightarrow> n \<noteq> ''default''"
  shows "default_log_level (internal_LogService_init (run ops (internal_LogService_init w))) =
           default_log_level (run ops (internal_LogService_init w)) \<and>
         level_overrides (internal_LogService_init (run ops (internal_LogService_init w))) =
           level_overrides (run ops (internal_LogService_init w)) \<and>
         (\<forall>n \<in> set ns. n \<noteq> ''default'' \<longrightarrow> channel (run ops (internal_LogService_init w)) n \<noteq> None \<longrightarrow>
            channel (run (map GetOrCreate ns)
                      (internal_LogService_init (run ops (internal_LogService_init w)))) n =
            channel (run ops (internal_LogService_init w)) n)"
proof -
  let ?st1 = "run ops (internal_LogService_init w)"
  let ?st2 = "internal_LogService_init ?st1"
  let ?st3 = "run (map GetOrCreate ns) ?st2"
  have wf1: "wf_state ?st1" by (simp add: wf_run wf_init)
  have p1: "persisted_inv ?st1"
    using assms by (intro persisted_inv_run wf_init persisted_inv_init)
  have wf3: "wf_state ?st3" by (simp add: wf_run wf_init)
  have p3: "persisted_inv ?st3"
    by (intro persisted_inv_run wf_init persisted_inv_init) auto
  have f3: "level_overrides ?st3 = level_overrides ?st1" "default_log_level ?st3 = default_log_level ?st1"
    by (simp_all add: run_creates_fields reload_fields[OF p1])
  have "channel ?st3 n = channel ?st1 n"
    if ns: "n \<in> set ns" and nd: "n \<noteq> ''default''" and ex: "channel ?st1 n \<noteq> None" for n
  proof -
    obtain lv1 ov1 where c1: "channel ?st1 n = Some (lv1, ov1)" using ex by auto
    have "channel ?st3 n \<noteq> None"
      using ns by (intro channel_exists_after_create wf_init) simp
    then obtain lv3 ov3 where c3: "channel ?st3 n = Some (lv3, ov3)" by auto
    have a: "ov1 \<longleftrightarrow> map_of (level_overrides ?st1) n \<noteq> None" "lv1 = level_for ?st1 n"
      using persisted_inv_channel[OF p1 nd c1] by simp_all
    have b: "ov3 \<longleftrightarrow> map_of (level_overrides ?st3) n \<noteq> None" "lv3 = level_for ?st3 n"
      using persisted_inv_channel[OF p3 nd c3] by simp_all
    have "level_for ?st3 n = level_for ?st1 n" using f3 by (rule level_for_cong)
    then show ?thesis using a b c1 c3 f3 by simp
  qed
  then show ?thesis using reload_fields[OF p1] by simp
qed

theorem roundtrip_reload_witness:
  "channel (run [SetOverride ''net'' 5, SetDefault 1, GetOrCreate ''z'']
             (internal_LogService_init world0)) ''net'' = Some (5, True) \<and>
   channel (run (map GetOrCreate [''net''])
     (internal_LogService_init
       (run [SetOverride ''net'' 5, SetDefault 1, GetOrCreate ''z'']
          (internal_LogService_init world0)))) ''net'' = Some (5, True) \<and>
   default_log_level (internal_LogService_init
       (run [SetOverride ''net'' 5, SetDefault 1, GetOrCreate ''z'']
          (internal_LogService_init world0))) = 1"
proof -
  have h: "\<forall>n l. SetOverride n l \<in> set [SetOverride ''net'' 5, SetDefault 1, GetOrCreate ''z''] \<longrightarrow>
      n \<noteq> ''default''"
    by simp
  have c: "channel (run [SetOverride ''net'' 5, SetDefault 1, GetOrCreate ''z'']
             (internal_LogService_init world0)) ''net'' = Some (5, True)"
    by (simp add: run_def channel_goc channel_set_default channel_override wf_init wf_override
          wf_set_default)
  have d: "default_log_level (run [SetOverride ''net'' 5, SetDefault 1, GetOrCreate ''z'']
             (internal_LogService_init world0)) = 1"
    by (simp add: run_def goc_fields set_default_fields)
  show ?thesis
    using roundtrip_reload[OF h, of world0 "[''net'']"] c d by simp
qed

text \<open>
  The claim as first stated fails for a channel named \<^verbatim>\<open>"default"\<close>: its override is
  stored under the key that also holds the default level, so the reloaded registry takes
  the channel's level 5 for its default, where the first registry had 3.
\<close>

theorem roundtrip_default_name_counterexample:
  "default_log_level (run [SetOverride ''default'' 5] (internal_LogService_init world0)) = 3 \<and>
   default_log_level (internal_LogService_init
     (run [SetOverride ''default'' 5] (internal_LogService_init world0))) = 5"
  by (simp add: run_def override_fields init_fields world0_def INFO_def)


section \<open>Channel identity, categories and construction\<close>

lemma lookup_goc:
  "map_of (loggers st) n = Some a \<Longrightarrow>
   map_of (loggers (snd (get_or_create_log_channel k st))) n = Some a"
  by (cases "map_of (loggers st) k") (simp_all add: goc_new goc_existing map_of_append map_add_def)

lemma lookup_step:
  "map_of (loggers st) n = Some a \<Longrightarrow> map_of (loggers (step x st)) n = Some a"
  by (cases x) (simp_all add: lookup_goc set_default_fields override_fields reset_fields)

lemma lookup_run:
  "map_of (loggers st) n = Some a \<Longrightarrow> map_of (loggers (run ops st)) n = Some a"
  unfolding run_def by (induction ops arbitrary: st) (simp_all add: lookup_step)

lemma goc_twice:
  "get_or_create_log_channel n (snd (get_or_create_log_channel n st)) = get_or_create_log_channel n st"
proof -
  have "map_of (loggers (snd (get_or_create_log_channel n st))) n =
          Some (fst (get_or_create_log_channel n st))"
    by (rule goc_lookup)
  then show ?thesis by (simp add: goc_existing)
qed

lemma goc_after_run:
  "fst (get_or_create_log_channel n (run ops (snd (get_or_create_log_channel n st)))) =
   fst (get_or_create_log_channel n st)"
proof -
  have "map_of (loggers (run ops (snd (get_or_create_log_channel n st)))) n =
          Some (fst (get_or_create_log_channel n st))"
    by (intro lookup_run goc_lookup)
  then show ?thesis by (simp add: goc_existing)
qed

lemma distinct_instances:
  fixes ops :: "op list"
  assumes "wf_state st" "n1 \<noteq> n2"
  defines "a1 \<equiv> fst (get_or_create_log_channel n1 st)"
  defines "st1 \<equiv> run ops (snd (get_or_create_log_channel n1 st))"
  defines "a2 \<equiv> fst (get_or_create_log_channel n2 st1)"
  defines "st2 \<equiv> snd (get_or_create_log_channel n2 st1)"
  shows "a1 \<noteq> a2" "a1 < length (heap st2)" "a2 < length (heap st2)"
    "path (heap st2 ! a1) = log_path st2 n1" "path (heap st2 ! a2) = log_path st2 n2"
proof -
  have wf2: "wf_state st2"
    unfolding st2_def st1_def using assms(1) by (intro wf_goc wf_run)
  have l1: "map_of (loggers st2) n1 = Some a1"
    unfolding st2_def st1_def a1_def by (intro lookup_goc lookup_run goc_lookup)
  have l2: "map_of (loggers st2) n2 = Some a2"
    unfolding st2_def a2_def by (rule goc_lookup)
  show "a1 \<noteq> a2" using wf_addr_inj[OF wf2 l1] l2 assms(2) by auto
  show "a1 < length (heap st2)" "path (heap st2 ! a1) = log_path st2 n1"
    using wf_lookup[OF wf2 l1] by simp_all
  show "a2 < length (heap st2)" "path (heap st2 ! a2) = log_path st2 n2"
    using wf_lookup[OF wf2 l2] by simp_all
qed

lemma get_level_set_level:
  "a < length (heap st) \<Longrightarrow> get_level b (set_level a l st) = (if b = a then l else get_level b st)"
  by (simp add: get_level_def set_level_def)

text \<open>
  Claim C4. \<^verbatim>\<open>get_or_create_log_channel\<close> is identity-stable: a second call with
  the same name returns the same object and changes nothing, and so does a call after any
  further registry calls. For two different names, asked for one after the other (with any
  registry calls in between), the objects returned are different, their paths are
  different, and \<^verbatim>\<open>set_level\<close> on either one sets its own threshold and leaves the
  other's as it was.
\<close>

theorem get_or_create_identity:
  assumes "wf_state st"
  shows "get_or_create_log_channel n (snd (get_or_create_log_channel n st)) =
           get_or_create_log_channel n st \<and>
         fst (get_or_create_log_channel n (run ops (snd (get_or_create_log_channel n st)))) =
           fst (get_or_create_log_channel n st) \<and>
         (n1 \<noteq> n2 \<longrightarrow>
            (let (a1, st0) = get_or_create_log_channel n1 st;
                 (a2, st2) = get_or_create_log_channel n2 (run ops st0)
             in a1 \<noteq> a2 \<and> path (heap st2 ! a1) \<noteq> path (heap st2 ! a2) \<and>
                (\<forall>l. get_level a1 (set_level a1 l st2) = l \<and>
                     get_level a2 (set_level a1 l st2) = get_level a2 st2 \<and>
                     get_level a2 (set_level a2 l st2) = l \<and>
                     get_level a1 (set_level a2 l st2) = get_level a1 st2)))"
proof -
  have "a1 \<noteq> a2 \<and> path (heap st2 ! a1) \<noteq> path (heap st2 ! a2) \<and>
        (\<forall>l. get_level a1 (set_level a1 l st2) = l \<and>
             get_level a2 (set_level a1 l st2) = get_level a2 st2 \<and>
             get_level a2 (set_level a2 l st2) = l \<and>
             get_level a1 (set_level a2 l st2) = get_level a1 st2)"
    if ne: "n1 \<noteq> n2"
      and a1: "a1 = fst (get_or_create_log_channel n1 st)"
      and a2: "a2 = fst (get_or_create_log_channel n2 (run ops (snd (get_or_create_log_channel n1 st))))"
      and st2: "st2 = snd (get_or_create_log_channel n2 (run ops (snd (get_or_create_log_channel n1 st))))"
    for a1 a2 st2
    using distinct_instances[OF assms ne, of ops] log_path_inj[of st2 n1 n2] ne
    unfolding a1 a2 st2
    by (simp add: get_level_set_level)
  then show ?thesis
    by (simp add: goc_twice goc_after_run Let_def split_beta)
qed

text \<open>
  Claim C10. \<^verbatim>\<open>LogService.get_logger\<close> applies \<^verbatim>\<open>str\<close> to its argument before the
  lookup: \<^verbatim>\<open>get_logger(n)\<close> is \<^verbatim>\<open>get_logger(str(n))\<close>, and two arguments with the same
  string form get the same object (hence the same file and threshold), also when the
  second is asked for after the first was created; the integer 1 and the string
  \<^verbatim>\<open>"1"\<close> are such a pair.
\<close>

theorem get_logger_coerces:
  "get_logger v st = get_or_create_log_channel (py_str v) st \<and>
   get_logger v st = get_logger (PyStr (py_str v)) st \<and>
   (py_str v = py_str v' \<longrightarrow>
      get_logger v' st = get_logger v st \<and>
      get_logger v' (snd (get_logger v st)) = get_logger v st) \<and>
   get_logger (PyInt 1) st = get_logger (PyStr ''1'') st"
proof -
  have "py_str (PyInt 1) = ''1''"
    by (simp add: str_int_def str_nat.simps digit_char_def)
  then show ?thesis
    by (simp add: get_logger_def goc_twice)
qed


theorem get_or_create_identity_witness:
  "wf_state state_z \<and> ''a'' \<noteq> ''b'' \<and>
   (let (a1, st0) = get_or_create_log_channel ''a'' state_z;
        (a2, st2) = get_or_create_log_channel ''b'' (run [SetDefault 1] st0)
    in a1 \<noteq> a2 \<and> path (heap st2 ! a1) \<noteq> path (heap st2 ! a2))"
  using get_or_create_identity[OF state_z_wf, of "''z''" "[SetDefault 1]" "''a''" "''b''"] state_z_wf
  by (simp add: Let_def split_beta)

theorem get_logger_coerces_witness:
  "py_str (PyInt 1) = py_str (PyStr ''1'') \<and>
   get_logger (PyStr ''1'') (snd (get_logger (PyInt 1) state_z)) = get_logger (PyInt 1) state_z \<and>
   fst (get_logger (PyStr ''1'') (snd (get_logger (PyInt 1) state_z))) = 1"
proof -
  have s: "py_str (PyInt 1) = ''1''"
    by (simp add: str_int_def str_nat.simps digit_char_def)
  have s': "str_int 1 = ''1''"
    by (simp add: str_int_def str_nat.simps digit_char_def)
  have a: "fst (get_logger (PyInt 1) state_z) = 1"
    by (simp add: get_logger_def s' goc_new state_z_eq)
  have e: "py_str (PyInt 1) = py_str (PyStr ''1'')" using s by simp
  have c: "get_logger (PyStr ''1'') (snd (get_logger (PyInt 1) state_z)) =
           get_logger (PyInt 1) state_z"
    using get_logger_coerces[of "PyInt 1" state_z "PyStr ''1''"] e by blast
  show ?thesis
    by (intro conjI) (simp_all only: e c a)
qed

lemma category_of_eq: "category_of nm = takeWhile (\<lambda>c. c \<noteq> CHR ''.'') nm"
proof (cases "CHR ''.'' \<in> set nm")
  case True
  then show ?thesis by (simp add: category_of_def split_dot1_def)
next
  case False
  then have t: "takeWhile (\<lambda>c. c \<noteq> CHR ''.'') nm = nm"
    by (subst takeWhile_eq_all_conv) auto
  have "category_of nm = nm" using False by (simp add: category_of_def)
  then show ?thesis by (simp only: t)
qed

lemma remdups_snoc: "remdups (ys @ [x]) = filter (\<lambda>y. y \<noteq> x) (remdups ys) @ [x]"
  by (induction ys) auto

lemma first_occurrences_Cons:
  "first_occurrences (x # xs) = x # filter (\<lambda>y. y \<noteq> x) (first_occurrences xs)"
  by (simp add: first_occurrences_def remdups_snoc rev_filter)

lemma first_occurrences_Nil: "first_occurrences [] = []"
  by (simp add: first_occurrences_def)

lemma categories_loop_eq:
  "categories_loop nms (cs, int k, seen) =
     (let new = filter (\<lambda>c. c \<notin> set seen) (first_occurrences (map category_of nms))
      in (cs @ map (\<lambda>(i, c). (c, c, c, int i)) (enumerate k new), int (k + length new), seen @ new))"
proof (induction nms arbitrary: cs k seen)
  case Nil
  then show ?case by (simp add: first_occurrences_Nil)
next
  case (Cons nm nms)
  let ?cat = "category_of nm"
  let ?fo = "first_occurrences (map category_of nms)"
  show ?case
  proof (cases "?cat \<in> set seen")
    case True
    have "filter (\<lambda>c. c \<notin> set seen) (filter (\<lambda>y. y \<noteq> ?cat) ?fo) = filter (\<lambda>c. c \<notin> set seen) ?fo"
      using True by (auto intro: filter_cong)
    then show ?thesis
      using True Cons.IH[of cs k seen] by (simp add: first_occurrences_Cons Let_def)
  next
    case False
    have f: "filter (\<lambda>c. c \<notin> set seen) (filter (\<lambda>y. y \<noteq> ?cat) ?fo) =
             filter (\<lambda>c. c \<notin> set (seen @ [?cat])) ?fo"
      by (auto intro: filter_cong)
    have i: "int k + 1 = int (Suc k)" by simp
    show ?thesis
      using False Cons.IH[of "cs @ [(?cat, ?cat, ?cat, int k)]" "Suc k" "seen @ [?cat]"]
      unfolding categories_loop.simps i
      by (simp add: first_occurrences_Cons Let_def f)
  qed
qed

lemma categories_eq:
  "get_loggers_categories_as_property_enum st =
     (''ALL'', ''(no filter)'', ''Do not filter: show all loggers'', 0) #
     map (\<lambda>(i, c). (c, c, c, int i))
       (enumerate 1 (first_occurrences (map category_of (sort (map fst (loggers st))))))"
  using categories_loop_eq[of "sort (map fst (loggers st))"
          "[(''ALL'', ''(no filter)'', ''Do not filter: show all loggers'', 0)]" 1 "[]"]
  by (simp add: get_loggers_categories_as_property_enum_def Let_def)

lemma sort_abc:
  assumes "distinct xs" "set xs = {''a.b'', ''a.c'', ''z''}"
  shows "sort xs = [''a.b'', ''a.c'', ''z'']"
proof (rule sorted_distinct_set_unique)
  show "sorted (sort xs)" by simp
  show "distinct (sort xs)" using assms(1) by simp
  show "sorted [''a.b'', ''a.c'', ''z'']" by simp
  show "distinct [''a.b'', ''a.c'', ''z'']" by simp
  show "set (sort xs) = set [''a.b'', ''a.c'', ''z'']" using assms(2) by simp
qed

text \<open>
  Claim C8. The names returned by \<^verbatim>\<open>get_loggers_categories_as_property_enum\<close> are
  \<^verbatim>\<open>"ALL"\<close> followed by the categories of the sorted channel names, each at its first
  occurrence, where the category of a name is the part before its first dot (the whole
  name without one). In a registry whose channels are exactly \<^verbatim>\<open>"a.b"\<close>, \<^verbatim>\<open>"a.c"\<close> and
  \<^verbatim>\<open>"z"\<close> the result is the entry for \<^verbatim>\<open>"ALL"\<close>, then \<^verbatim>\<open>"a"\<close>, then \<^verbatim>\<open>"z"\<close>.
\<close>

theorem categories_in_order:
  "map fst (get_loggers_categories_as_property_enum st) =
     ''ALL'' # first_occurrences (map (takeWhile (\<lambda>c. c \<noteq> CHR ''.'')) (sort (map fst (loggers st)))) \<and>
   (distinct (map fst (loggers st)) \<and> set (map fst (loggers st)) = {''a.b'', ''a.c'', ''z''} \<longrightarrow>
      get_loggers_categories_as_property_enum st =
        [(''ALL'', ''(no filter)'', ''Do not filter: show all loggers'', 0),
         (''a'', ''a'', ''a'', 1), (''z'', ''z'', ''z'', 2)] \<and>
      map fst (get_loggers_categories_as_property_enum st) = [''ALL'', ''a'', ''z''])"
proof -
  have m: "map fst (map (\<lambda>(i, c). (c, c, c, int i)) (enumerate k xs)) = xs" for k and xs :: "string list"
    by (induction xs arbitrary: k) simp_all
  have g: "map fst (get_loggers_categories_as_property_enum st) =
     ''ALL'' # first_occurrences (map (takeWhile (\<lambda>c. c \<noteq> CHR ''.'')) (sort (map fst (loggers st))))"
    unfolding categories_eq using m by (simp add: category_of_eq[abs_def])
  have s: "get_loggers_categories_as_property_enum st =
        [(''ALL'', ''(no filter)'', ''Do not filter: show all loggers'', 0),
         (''a'', ''a'', ''a'', 1), (''z'', ''z'', ''z'', 2)]"
    if "distinct (map fst (loggers st))" "set (map fst (loggers st)) = {''a.b'', ''a.c'', ''z''}"
    unfolding categories_eq sort_abc[OF that]
    by (simp add: category_of_eq first_occurrences_def)
  show ?thesis using g s by auto
qed

lemma state_abc_loggers: "loggers state_abc = [(''z'', 0), (''a.c'', 1), (''a.b'', 2)]"
  by (simp add: state_abc_def run_def world0_def internal_LogService_init_def rewrite_json_def
        print_def truncate_file_def get_or_create_log_channel_def Logger_init_def Let_def)

theorem categories_in_order_witness:
  "distinct (map fst (loggers state_abc)) \<and>
   set (map fst (loggers state_abc)) = {''a.b'', ''a.c'', ''z''} \<and>
   map fst (get_loggers_categories_as_property_enum state_abc) = [''ALL'', ''a'', ''z'']"
proof -
  have h: "distinct (map fst (loggers state_abc)) \<and>
           set (map fst (loggers state_abc)) = {''a.b'', ''a.c'', ''z''}"
    by (auto simp: state_abc_loggers)
  then show ?thesis
    using categories_in_order[of state_abc] by simp
qed

lemma LogService_raises:
  "construct LogService st =
     Inl (RuntimeError ''You should not instance LogService. Use its static methods instead.'')"
  by simp

lemma fresh_registry:
  "loggers (internal_LogService_init st) = []"
  "files (internal_LogService_init st) (COMBINED st) = Some []"
  by (auto simp: internal_LogService_init_def truncate_file_def COMBINED_def rewrite_json_def
        print_def Let_def split: option.splits)

text \<open>
  Had the package bound both names, the module body would reach line 370 and the
  construction there would return a registry without channels.
\<close>

lemma module_loads_when_bound:
  assumes "from_import p ''get_preference'' = Inr g" "from_import p ''DEBUG'' = Inr d"
  shows "\<exists>st'. logservice_module p pref_ok st = Inr st' \<and> loggers st' = []"
  using assms by (simp add: logservice_module_def Let_def fresh_registry)

lemma module_loads_with_DEBUG:
  "\<exists>st'. logservice_module
           (mpfb_package\<lparr>attrs := (''DEBUG'', Scalar (PyBool False)) # attrs mpfb_package\<rparr>)
           pref_ok st = Inr st' \<and> loggers st' = []"
  by (rule module_loads_when_bound) (simp_all add: from_import_def mpfb_package_def)

text \<open>
  Claim C9. The claim says that constructing the public class raises a runtime error and
  that the first construction of the internal registry, the one the module makes when it
  is loaded, succeeds. The first part holds of \<^verbatim>\<open>LogService.__init__\<close>. In the package
  as the source has it the second does not: the module body ends at line 4 with
  \<^verbatim>\<open>ImportError\<close> for the name \<^verbatim>\<open>DEBUG\<close>, whatever the state and the host's
  preferences, and line 370 is never run.
\<close>

theorem module_load_fails:
  "logservice_module mpfb_package pref_ok st = Inl (ImportError ''DEBUG'')"
  by (simp add: logservice_module_def from_import_def mpfb_package_def)

end
